theory Spec2Isabelle
  imports Main "HOL-Library.Word" "HOL-Library.Multiset"
begin

unbundle bit_operations_syntax

section \<open>Machine types of the target (Arduino Uno, avr-gcc)\<close>

text \<open>
  On the AVR target \<open>unsigned int\<close> and \<open>unsigned short\<close> are 16 bits wide,
  \<open>unsigned long\<close> is 32 bits wide, and \<open>byte\<close> and \<open>char\<close> are 8 bits wide.
\<close>

type_synonym byte = "8 word"
type_synonym uint = "16 word"
type_synonym ulong = "32 word"

section \<open>Scoring\<close>

text \<open>
  \<open>inputTimeToScore\<close>: 100 points, then three independent \<open>if\<close> statements,
  each adding its bonus to the running score.
\<close>

definition inputTimeToScore :: "uint \<Rightarrow> uint" where
  "inputTimeToScore timeToInput =
     (let score = 100;
          score = (if timeToInput \<le> 250 then score + 50 else score);
          score = (if timeToInput \<le> 500 then score + 25 else score);
          score = (if timeToInput \<le> 1000 then score + 25 else score)
      in score)"

section \<open>The pseudo-random source\<close>

text \<open>
  \<open>random(howsmall, howbig)\<close> belongs to the Arduino core, not to this program. It
  returns \<open>howsmall\<close> when the range is empty and otherwise the generator's next raw
  output reduced modulo the width of the range, shifted by \<open>howsmall\<close>. The raw
  output is a parameter of every model below that draws a number; a function that
  draws several numbers takes the whole stream of raw outputs, \<open>rnd :: nat \<Rightarrow> nat\<close>,
  whose \<open>i\<close>-th value answers the \<open>i\<close>-th call.
\<close>

definition random_min_max :: "nat \<Rightarrow> nat \<Rightarrow> nat \<Rightarrow> nat" where
  "random_min_max howsmall howbig raw =
     (if howsmall \<ge> howbig then howsmall else raw mod (howbig - howsmall) + howsmall)"

section \<open>The sequence generator\<close>

text \<open>
  Both functions of the generator index arrays without checking the index. Where the
  source would index outside an array the model returns the fault \<open>OutOfBounds\<close>.
\<close>

datatype fault = OutOfBounds

text \<open>
  \<open>chooseRandomSymbols\<close>. A pointer \<open>&symbols[i]\<close> into the catalog is the index
  \<open>i\<close>, so \<open>symbolReferences\<close> starts as the list of the indices below
  \<open>symbolsLength\<close>, the length of the catalog. \<open>randomIndex\<close> is the value drawn in
  pass \<open>i\<close> of the swap loop and \<open>swapStep\<close> the exchange through \<open>temp\<close> of that
  pass. The loop reads \<open>symbolReferences[i]\<close> for every \<open>i\<close> below
  \<open>destinationLength\<close>, which is outside the array as soon as \<open>destinationLength\<close>
  exceeds \<open>symbolsLength\<close>.
\<close>

definition randomIndex :: "(nat \<Rightarrow> nat) \<Rightarrow> nat \<Rightarrow> nat \<Rightarrow> nat" where
  "randomIndex rnd symbolsLength i = random_min_max 0 symbolsLength (rnd i)"

definition swapStep :: "(nat \<Rightarrow> nat) \<Rightarrow> nat \<Rightarrow> nat \<Rightarrow> nat list \<Rightarrow> nat list" where
  "swapStep rnd symbolsLength i symbolReferences =
     (let randomIndex = randomIndex rnd symbolsLength i;
          temp = symbolReferences ! randomIndex
      in (symbolReferences[randomIndex := symbolReferences ! i])[i := temp])"

definition chooseRandomSymbols :: "(nat \<Rightarrow> nat) \<Rightarrow> 'a list \<Rightarrow> nat \<Rightarrow> fault + nat list" where
  "chooseRandomSymbols rnd symbols destinationLength =
     (let symbolsLength = length symbols;
          symbolReferences = [0..<symbolsLength]
      in if destinationLength > symbolsLength then Inl OutOfBounds
         else Inr (take destinationLength
                     (fold (swapStep rnd symbolsLength) [0..<destinationLength]
                        symbolReferences)))"

text \<open>
  \<open>generateSymbolSequence\<close>. The array \<open>symbols\<close> of \<open>symbolsLength\<close> pointers is a
  list, and the pointers are values of any type that can be compared.
  \<open>symbolFound\<close> is the inner search loop, which stops at the first match, and
  \<open>containsAllSymbols\<close> the outer check, which stops at the first symbol that is
  missing. \<open>drawSequence\<close> is the \<open>for\<close> loop that fills the sequence; it uses the raw
  outputs from position \<open>pos\<close> on.
\<close>

fun symbolFound :: "'a \<Rightarrow> 'a list \<Rightarrow> bool" where
  "symbolFound symbol [] = False"
| "symbolFound symbol (s # sequence) =
     (if symbol = s then True else symbolFound symbol sequence)"

fun containsAllSymbols :: "'a list \<Rightarrow> 'a list \<Rightarrow> bool" where
  "containsAllSymbols [] sequence = True"
| "containsAllSymbols (symbol # symbols) sequence =
     (if symbolFound symbol sequence then containsAllSymbols symbols sequence else False)"

definition drawSequence :: "(nat \<Rightarrow> nat) \<Rightarrow> 'a list \<Rightarrow> nat \<Rightarrow> nat \<Rightarrow> 'a list" where
  "drawSequence rnd symbols sequenceLength pos =
     map (\<lambda>i. symbols ! random_min_max 0 (length symbols) (rnd (pos + i)))
       [0..<sequenceLength]"

text \<open>
  The \<open>while(!containsAllSymbols)\<close> loop has no bound on its passes: it draws a whole
  new sequence until one contains every symbol. It is a partial function, and \<open>None\<close>
  means that the loop does not end for the given stream of raw outputs.
\<close>

partial_function (option) generateLoop ::
  "(nat \<Rightarrow> nat) \<Rightarrow> 'a list \<Rightarrow> nat \<Rightarrow> nat \<Rightarrow> 'a list option" where
  "generateLoop rnd symbols sequenceLength pos =
     (let sequence = drawSequence rnd symbols sequenceLength pos
      in if containsAllSymbols symbols sequence then Some sequence
         else generateLoop rnd symbols sequenceLength (pos + sequenceLength))"

text \<open>
  With no symbols, \<open>random(0, 0)\<close> is 0 and a sequence that is not empty is filled from
  \<open>symbols[0]\<close>, outside the array.
\<close>

definition generateSymbolSequence ::
  "(nat \<Rightarrow> nat) \<Rightarrow> 'a list \<Rightarrow> nat \<Rightarrow> (fault + 'a list) option" where
  "generateSymbolSequence rnd symbols sequenceLength =
     (if symbols = [] \<and> 0 < sequenceLength then Some (Inl OutOfBounds)
      else map_option Inr (generateLoop rnd symbols sequenceLength 0))"

section \<open>Round profiles and the randomised difficulty strategy\<close>

record Symbol =
  topLeft :: byte
  topRight :: byte
  bottomLeft :: byte
  bottomRight :: byte
  symbolValue :: byte

text \<open>
  The fields of \<open>struct roundProfile\<close> in the order of the source. The field
  \<open>score\<close> is named \<open>roundScore\<close> here, since \<open>score\<close> is also the field of a
  high score.
\<close>

record RoundProfile =
  sequenceLength :: uint
  symbols :: "Symbol list"
  uniqueSymbols :: uint
  inputToSymbolValue :: "byte \<Rightarrow> byte"
  displayTime :: uint
  inputTime :: uint
  roundScore :: ulong

definition ROUNDP_SEQUENCE_LENGTH_MAX :: uint where
  "ROUNDP_SEQUENCE_LENGTH_MAX = 15"

definition ROUNDP_UNIQUE_SYMBOLS_MAX :: uint where
  "ROUNDP_UNIQUE_SYMBOLS_MAX = 4"

definition ROUNDP_DISPLAY_TIME_MIN :: uint where
  "ROUNDP_DISPLAY_TIME_MIN = 500"

definition ROUNDP_INPUT_TIME_MIN :: uint where
  "ROUNDP_INPUT_TIME_MIN = 500"

text \<open>
  The \<open>while(!complexityIncreased)\<close> loop of \<open>randomRoundComplexity\<close> with its
  \<open>switch\<close>. The loop state is the profile and the selector \<open>randomComplexity\<close>;
  leaving the loop is returning the profile. A selector outside 0..3 matches no case,
  so the loop repeats with the same state; the loop may therefore not return, and the
  model is a partial function whose value \<open>None\<close> means exactly that.
\<close>

partial_function (option) complexityLoop :: "RoundProfile \<Rightarrow> byte \<Rightarrow> RoundProfile option" where
  "complexityLoop profile randomComplexity =
     (if randomComplexity = 0 then
        (if sequenceLength profile < ROUNDP_SEQUENCE_LENGTH_MAX
         then Some (profile\<lparr>sequenceLength := sequenceLength profile + 1\<rparr>)
         else complexityLoop profile (randomComplexity + 1))
      else if randomComplexity = 1 then
        (if uniqueSymbols profile < ROUNDP_UNIQUE_SYMBOLS_MAX
         then Some (profile\<lparr>uniqueSymbols := uniqueSymbols profile + 1\<rparr>)
         else complexityLoop profile (randomComplexity + 1))
      else if randomComplexity = 2 then
        (if displayTime profile - 250 \<ge> ROUNDP_DISPLAY_TIME_MIN
         then Some (profile\<lparr>displayTime := displayTime profile - 250\<rparr>)
         else complexityLoop (profile\<lparr>displayTime := ROUNDP_DISPLAY_TIME_MIN\<rparr>)
                (randomComplexity + 1))
      else if randomComplexity = 3 then
        (if inputTime profile - 250 \<ge> ROUNDP_INPUT_TIME_MIN
         then Some (profile\<lparr>inputTime := inputTime profile - 250\<rparr>)
         else
           (let profile = profile\<lparr>inputTime := ROUNDP_INPUT_TIME_MIN\<rparr>
            in if sequenceLength profile < ROUNDP_SEQUENCE_LENGTH_MAX
               then complexityLoop profile 0
               else if uniqueSymbols profile < ROUNDP_UNIQUE_SYMBOLS_MAX
               then complexityLoop profile 1
               else if displayTime profile > ROUNDP_DISPLAY_TIME_MIN
               then complexityLoop profile 2
               else Some profile))
      else complexityLoop profile randomComplexity)"

text \<open>
  \<open>randomRoundComplexity(profile, roundNumber)\<close>; \<open>raw\<close> is the generator output
  behind \<open>random(0, 4)\<close>. In the first round nothing is drawn and nothing changes.
\<close>

definition randomRoundComplexity :: "RoundProfile \<Rightarrow> uint \<Rightarrow> nat \<Rightarrow> RoundProfile option" where
  "randomRoundComplexity profile roundNumber raw =
     (if roundNumber > 1
      then complexityLoop profile (of_nat (random_min_max 0 4 raw))
      else Some profile)"

section \<open>The persistence layer\<close>

text \<open>
  The EEPROM is a byte-addressable store; the program addresses it with \<open>unsigned int\<close>
  values. \<open>EEPROM.length()\<close> belongs to the Arduino EEPROM library and is a constant of
  the board (1024 on the Arduino Uno the program was written for); it is the parameter
  \<open>len\<close> of every function below. \<open>EEPROM.update(a, b)\<close> leaves cell \<open>a\<close> holding
  \<open>b\<close>.
\<close>

type_synonym eeprom = "uint \<Rightarrow> byte"

text \<open>
  A \<open>HighScore\<close> is an \<open>unsigned long\<close> score and the array
  \<open>char alias[EEP_ALIAS_LENGTH]\<close>, a list of exactly four characters here
  (\<open>EEP_ALIAS_LENGTH = 4\<close>, \<open>sizeof(HighScore) = 8\<close>); the field is named
  \<open>aliasOf\<close>, \<open>alias\<close> being a keyword. The layout constants are
  \<open>EEP_SEED_ADDRESS = 0\<close>, \<open>EEP_HIGH_SCORE_TABLE_ADDRESS = 4\<close> and
  \<open>EEP_HIGH_SCORE_TABLE_SIZE = 10\<close>, so record \<open>i\<close> occupies the eight cells from
  \<open>4 + 8 * i\<close> on: four for the score, lowest byte first, then four for the alias.
\<close>

record HighScore =
  score :: ulong
  aliasOf :: "byte list"

text \<open>
  \<open>eep_readULong\<close> and \<open>eep_writeULong\<close>: the guard is computed in 16-bit unsigned
  arithmetic, as \<open>EEPROM.length() - sizeof(unsigned long)\<close> is in the source. The read
  loop counts \<open>i\<close> down from 3 to 0, shifting the buffer left by eight bits before it
  adds each byte; the write loop counts up, storing the low byte and shifting the data
  right.
\<close>

definition eep_readULong :: "uint \<Rightarrow> eeprom \<Rightarrow> uint \<Rightarrow> ulong" where
  "eep_readULong len mem address =
     (if address \<le> len - 4
      then foldl (\<lambda>longBuffer i. push_bit 8 longBuffer + ucast (mem (address + of_nat i)))
             0 (rev [0..<4])
      else 0)"

definition eep_writeULong :: "uint \<Rightarrow> ulong \<Rightarrow> uint \<Rightarrow> eeprom \<Rightarrow> eeprom" where
  "eep_writeULong len data address mem =
     (if address \<le> len - 4
      then snd (foldl (\<lambda>(data, mem) i.
                  (drop_bit 8 data, mem(address + of_nat i := ucast (data AND 0xff))))
                (data, mem) [0..<4])
      else mem)"

text \<open>
  \<open>eep_readChar\<close> and \<open>eep_writeChar\<close> are the same loops for \<open>sizeof(char) = 1\<close>.
  The read buffer is an \<open>unsigned long\<close> truncated to \<open>char\<close> on return. In the
  write, \<open>data & 0xff\<close> and \<open>data >> 8\<close> are computed on the \<open>char\<close> promoted to a
  (signed, 16-bit) \<open>int\<close>.
\<close>

definition eep_readChar :: "uint \<Rightarrow> eeprom \<Rightarrow> uint \<Rightarrow> byte" where
  "eep_readChar len mem address =
     (if address \<le> len - 1
      then ucast (foldl (\<lambda>charBuffer i. push_bit 8 charBuffer + ucast (mem (address + of_nat i)))
                   (0 :: ulong) (rev [0..<1]))
      else 0)"

definition eep_writeChar :: "uint \<Rightarrow> byte \<Rightarrow> uint \<Rightarrow> eeprom \<Rightarrow> eeprom" where
  "eep_writeChar len data address mem =
     (if address \<le> len - 1
      then snd (foldl (\<lambda>(data, mem) i.
                  (ucast (signed_drop_bit 8 (scast data :: uint)) :: byte,
                   mem(address + of_nat i := ucast ((scast data :: uint) AND 0xff))))
                (data, mem) [0..<1])
      else mem)"

text \<open>
  \<open>eep_readHighScore\<close> returns its local buffer uninitialised when the index is not
  below \<open>EEP_HIGH_SCORE_TABLE_SIZE\<close>; the model returns \<open>None\<close> there.
  \<open>eep_readHighScoreTable\<close> reads the indices 0 to 9 in order and keeps the records
  that are defined.
\<close>

definition eep_readHighScore :: "uint \<Rightarrow> eeprom \<Rightarrow> uint \<Rightarrow> HighScore option" where
  "eep_readHighScore len mem tableIndex =
     (if tableIndex < 10
      then (let actualAddress = 4 + 8 * tableIndex
            in Some \<lparr>score = eep_readULong len mem actualAddress,
                     aliasOf = map (\<lambda>i. eep_readChar len mem (actualAddress + 4 + of_nat i * 1))
                                 [0..<4]\<rparr>)
      else None)"

definition eep_readHighScoreTable :: "uint \<Rightarrow> eeprom \<Rightarrow> HighScore list" where
  "eep_readHighScoreTable len mem =
     List.map_filter (\<lambda>i. eep_readHighScore len mem (of_nat i)) [0..<10]"

definition eep_writeHighScore :: "uint \<Rightarrow> HighScore \<Rightarrow> uint \<Rightarrow> eeprom \<Rightarrow> eeprom" where
  "eep_writeHighScore len hsp tableIndex mem =
     (if tableIndex < 10
      then (let actualIndex = 4 + tableIndex * 8;
                mem = eep_writeULong len (score hsp) actualIndex mem
            in fold (\<lambda>i mem. eep_writeChar len (aliasOf hsp ! i)
                                 (actualIndex + 4 + of_nat i * 1) mem)
                    [0..<4] mem)
      else mem)"

text \<open>
  \<open>eep_initialiseHighScoreTable\<close> writes the dummy record ten times, lowering its
  score by 500 after each write. The alias \<open>"JMT"\<close> is the characters 74, 77, 84 and
  the terminator 0.
\<close>

definition eep_initialiseHighScoreTable :: "uint \<Rightarrow> eeprom \<Rightarrow> eeprom" where
  "eep_initialiseHighScoreTable len mem =
     snd (fold (\<lambda>i (dummyHS, mem).
                  (dummyHS\<lparr>score := score dummyHS - 500\<rparr>,
                   eep_writeHighScore len dummyHS (of_nat i) mem))
               [0..<10] (\<lparr>score = 6000, aliasOf = [74, 77, 84, 0]\<rparr>, mem))"

text \<open>
  \<open>eep_isHighScore\<close> scans the table from index 0 and stops at the first record
  whose score is below the given one.
\<close>

fun isHighScoreLoop :: "HighScore list \<Rightarrow> ulong \<Rightarrow> bool" where
  "isHighScoreLoop [] sc = False"
| "isHighScoreLoop (h # highScoreTable) sc =
     (if score h < sc then True else isHighScoreLoop highScoreTable sc)"

definition eep_isHighScore :: "uint \<Rightarrow> eeprom \<Rightarrow> ulong \<Rightarrow> bool" where
  "eep_isHighScore len mem sc = isHighScoreLoop (eep_readHighScoreTable len mem) sc"

text \<open>
  \<open>eep_sortHighScoreTable\<close> reads the table, sorts an array of pointers to its ten
  records and writes the records back in the order of the pointers. Exchanging two
  pointers is exchanging two entries of the list. \<open>maxIndexLoop\<close> is the inner loop
  (\<open>j\<close> from \<open>i\<close> to 9, \<open>maxIndex\<close> starting at \<open>i\<close>), \<open>sortStep\<close> one pass of the
  outer loop with its exchange through \<open>temp\<close>, \<open>sortPointers\<close> the outer loop
  (\<open>i\<close> from 0 to 8).
\<close>

definition maxIndexLoop :: "HighScore list \<Rightarrow> nat \<Rightarrow> nat" where
  "maxIndexLoop highScoreTablep i =
     fold (\<lambda>j maxIndex.
             if score (highScoreTablep ! j) > score (highScoreTablep ! maxIndex)
             then j else maxIndex)
          [i..<10] i"

definition sortStep :: "nat \<Rightarrow> HighScore list \<Rightarrow> HighScore list" where
  "sortStep i highScoreTablep =
     (let maxIndex = maxIndexLoop highScoreTablep i;
          temp = highScoreTablep ! i
      in (highScoreTablep[i := highScoreTablep ! maxIndex])[maxIndex := temp])"

definition sortPointers :: "HighScore list \<Rightarrow> HighScore list" where
  "sortPointers highScoreTablep = fold sortStep [0..<9] highScoreTablep"

definition eep_sortHighScoreTable :: "uint \<Rightarrow> eeprom \<Rightarrow> eeprom" where
  "eep_sortHighScoreTable len mem =
     (let highScoreTable = eep_readHighScoreTable len mem;
          highScoreTablep = sortPointers highScoreTable
      in fold (\<lambda>i mem. eep_writeHighScore len (highScoreTablep ! i) (of_nat i) mem) [0..<10] mem)"

text \<open>
  \<open>eep_addHighScore\<close> returns \<open>isAdded\<close> together with the new contents of the
  EEPROM.
\<close>

definition eep_addHighScore :: "uint \<Rightarrow> HighScore \<Rightarrow> eeprom \<Rightarrow> bool \<times> eeprom" where
  "eep_addHighScore len hsp mem =
     (let isAdded = eep_isHighScore len mem (score hsp)
      in if isAdded
         then (isAdded, eep_sortHighScoreTable len (eep_writeHighScore len hsp 9 mem))
         else (isAdded, mem))"

section \<open>Notions used by the statements and proofs\<close>

text \<open>
  A table is sorted when its scores do not increase from one index to the next.
\<close>

definition sortedDesc :: "HighScore list \<Rightarrow> bool" where
  "sortedDesc t = sorted_wrt (\<lambda>a b. score a \<ge> score b) t"

text \<open>
  \<open>cell i k\<close> is the address of byte \<open>k\<close> of record \<open>i\<close>; \<open>assemble\<close> is the value
  the read loop builds from four bytes, lowest first; \<open>stored h\<close> is the record made of
  the score and the first four alias characters of \<open>h\<close>; \<open>sortedUpTo k\<close> is the
  invariant of the outer loop of the sort after \<open>k\<close> passes.
\<close>

definition cell :: "nat \<Rightarrow> nat \<Rightarrow> uint" where
  "cell i k = 4 + 8 * of_nat i + of_nat k"

definition assemble :: "byte \<Rightarrow> byte \<Rightarrow> byte \<Rightarrow> byte \<Rightarrow> ulong" where
  "assemble b0 b1 b2 b3 =
     push_bit 8 (push_bit 8 (push_bit 8 (ucast b3) + ucast b2) + ucast b1) + ucast b0"

definition stored :: "HighScore \<Rightarrow> HighScore" where
  "stored h = \<lparr>score = score h, aliasOf = map (\<lambda>i. aliasOf h ! i) [0..<4]\<rparr>"

definition sortedUpTo :: "nat \<Rightarrow> HighScore list \<Rightarrow> bool" where
  "sortedUpTo k p \<longleftrightarrow> (\<forall>a b. a < k \<and> a \<le> b \<and> b < 10 \<longrightarrow> score (p ! b) \<le> score (p ! a))"

section \<open>Concrete inputs\<close>

text \<open>
  \<open>drawsFrom raws\<close> is the stream of raw generator outputs that starts with the list
  \<open>raws\<close> and continues with zeros.
\<close>

definition drawsFrom :: "nat list \<Rightarrow> nat \<Rightarrow> nat" where
  "drawsFrom raws i = (if i < length raws then raws ! i else 0)"

definition maximalProfile :: RoundProfile where
  "maximalProfile =
     \<lparr>sequenceLength = 15, symbols = [], uniqueSymbols = 4, inputToSymbolValue = (\<lambda>b. b),
      displayTime = 500, inputTime = 500, roundScore = 1200\<rparr>"

text \<open>
  An erased EEPROM of 1024 bytes, and the same EEPROM after
  \<open>eep_initialiseHighScoreTable\<close>; \<open>initialTable\<close> is the table it then holds.
\<close>

definition blankEEPROM :: eeprom where
  "blankEEPROM = (\<lambda>address. 255)"

definition initialEEPROM :: eeprom where
  "initialEEPROM = eep_initialiseHighScoreTable 1024 blankEEPROM"

definition aliasJMT :: "byte list" where
  "aliasJMT = [74, 77, 84, 0]"

definition aliasAAA :: "byte list" where
  "aliasAAA = [65, 65, 65, 0]"

definition aliasBBB :: "byte list" where
  "aliasBBB = [66, 66, 66, 0]"

definition initialTable :: "HighScore list" where
  "initialTable = map (\<lambda>s. \<lparr>score = s, aliasOf = aliasJMT\<rparr>)
     [6000, 5500, 5000, 4500, 4000, 3500, 3000, 2500, 2000, 1500]"

text \<open>
  The EEPROM at the moment \<open>eep_addHighScore\<close> calls the sort for a second new score:
  after the initialisation the score 2500 of \<open>AAA\<close> was added, and now the score 2700
  of \<open>BBB\<close> has been written over the last record.
\<close>

definition tiedEEPROM :: eeprom where
  "tiedEEPROM =
     eep_writeHighScore 1024 \<lparr>score = 2700, aliasOf = aliasBBB\<rparr> 9
       (snd (eep_addHighScore 1024 \<lparr>score = 2500, aliasOf = aliasAAA\<rparr> initialEEPROM))"

text \<open>
  The table after the score 2500 of \<open>AAA\<close> was added to the initial table.
\<close>

definition tableAfterAAA :: "HighScore list" where
  "tableAfterAAA = map (\<lambda>s. \<lparr>score = s, aliasOf = aliasJMT\<rparr>)
       [6000, 5500, 5000, 4500, 4000, 3500, 3000, 2500]
     @ [\<lparr>score = 2500, aliasOf = aliasAAA\<rparr>, \<lparr>score = 2000, aliasOf = aliasJMT\<rparr>]"

text \<open>
  Three new scores to be added one after the other: one that heads the table, one that
  does not qualify, and one that ties with the first.
\<close>

definition newScores :: "HighScore list" where
  "newScores = [\<lparr>score = 6500, aliasOf = aliasAAA\<rparr>, \<lparr>score = 100, aliasOf = aliasBBB\<rparr>,
                \<lparr>score = 6500, aliasOf = aliasBBB\<rparr>]"

section \<open>Properties of the scoring function\<close>

text \<open>
  C4. For every latency \<open>t\<close>, \<open>inputTimeToScore t\<close> is 100 plus 50 if \<open>t \<le> 250\<close>,
  plus 25 if \<open>t \<le> 500\<close>, plus 25 if \<open>t \<le> 1000\<close>; the three bonuses accumulate, so
  an input after 200 ms scores exactly 200. The sum is read as a natural number, so
  no wrap-around of the 16-bit score is involved.
\<close>

theorem inputTimeToScore_cumulative:
  "unat (inputTimeToScore t) =
     100 + (if unat t \<le> 250 then 50 else 0)
         + (if unat t \<le> 500 then 25 else 0)
         + (if unat t \<le> 1000 then 25 else 0)
   \<and> inputTimeToScore 200 = 200"
  by (simp add: inputTimeToScore_def Let_def word_le_nat_alt)

text \<open>
  C5, as the code has it. The bonuses accumulate, so an input after 300 ms earns the
  two 25-point bonuses (150) and an input after 600 ms earns one (125); inputs after
  0 ms and 1500 ms score 200 and 100.
\<close>

theorem inputTimeToScore_examples:
  "inputTimeToScore 0 = 200 \<and> inputTimeToScore 300 = 150
   \<and> inputTimeToScore 600 = 125 \<and> inputTimeToScore 1500 = 100"
  by (simp add: inputTimeToScore_def)

text \<open>
  C5, as stated, fails: the score for 300 ms is not 125 and the score for 600 ms is
  not 100.
\<close>

theorem inputTimeToScore_examples_counterexample:
  "inputTimeToScore 300 \<noteq> 125 \<and> inputTimeToScore 600 \<noteq> 100"
  by (simp add: inputTimeToScore_def)

section \<open>The randomised strategy at maximal difficulty\<close>

lemma random_min_max_0_4: "random_min_max 0 4 raw \<in> {0, 1, 2, 3}"
proof -
  have "raw mod 4 = 0 \<or> raw mod 4 = 1 \<or> raw mod 4 = 2 \<or> raw mod 4 = 3"
    by presburger
  then show ?thesis by (auto simp add: random_min_max_def)
qed

lemma complexityLoop_maximised:
  assumes "sequenceLength p = 15" "uniqueSymbols p = 4" "displayTime p = 500" "inputTime p = 500"
  shows "complexityLoop p 3 = Some p" "complexityLoop p 2 = Some p"
    "complexityLoop p 1 = Some p" "complexityLoop p 0 = Some p"
proof -
  have eq: "p\<lparr>inputTime := 500\<rparr> = p" "p\<lparr>displayTime := 500\<rparr> = p"
    using assms by simp_all
  show 3: "complexityLoop p 3 = Some p"
    using assms
    by (subst complexityLoop.simps)
       (simp add: eq ROUNDP_SEQUENCE_LENGTH_MAX_def ROUNDP_UNIQUE_SYMBOLS_MAX_def
          ROUNDP_DISPLAY_TIME_MIN_def ROUNDP_INPUT_TIME_MIN_def)
  show 2: "complexityLoop p 2 = Some p"
    using assms 3
    by (subst complexityLoop.simps) (simp add: eq ROUNDP_DISPLAY_TIME_MIN_def)
  show 1: "complexityLoop p 1 = Some p"
    using assms 2
    by (subst complexityLoop.simps) (simp add: ROUNDP_UNIQUE_SYMBOLS_MAX_def)
  show "complexityLoop p 0 = Some p"
    using assms 1
    by (subst complexityLoop.simps) (simp add: ROUNDP_SEQUENCE_LENGTH_MAX_def)
qed

text \<open>
  C9. A profile whose four difficulty dimensions are at their maxima (sequence length
  15, four unique symbols, display time 500 ms, input time 500 ms) is returned
  unchanged by \<open>randomRoundComplexity\<close>, for every round number and every outcome of
  the random draw; in particular the loop does return.
\<close>

theorem randomRoundComplexity_maximised:
  assumes "sequenceLength p = 15" and "uniqueSymbols p = 4"
    and "displayTime p = 500" and "inputTime p = 500"
  shows "randomRoundComplexity p roundNumber raw = Some p"
proof (cases "roundNumber > 1")
  case False
  then show ?thesis by (simp add: randomRoundComplexity_def)
next
  case True
  have "complexityLoop p (of_nat (random_min_max 0 4 raw)) = Some p"
    using random_min_max_0_4 [of raw] complexityLoop_maximised [OF assms] by auto
  with True show ?thesis by (simp add: randomRoundComplexity_def)
qed

text \<open>
  An instance of C9: a maximal profile, round 7, raw draw 2 (the selector starts at
  \<open>DISPLAY_TIME\<close>).
\<close>

theorem randomRoundComplexity_maximised_witness:
  "sequenceLength maximalProfile = 15 \<and> uniqueSymbols maximalProfile = 4
   \<and> displayTime maximalProfile = 500 \<and> inputTime maximalProfile = 500
   \<and> randomRoundComplexity maximalProfile 7 2 = Some maximalProfile"
  using randomRoundComplexity_maximised [of maximalProfile 7 2]
  by (simp add: maximalProfile_def)

section \<open>Bytes, cells and records\<close>

text \<open>
  The four bytes the write loop stores are the four bytes the read loop assembles, and
  a character is stored as it is.
\<close>

lemma upt_0_4: "[0..<4] = [0, 1, 2, 3]"
  by code_simp

lemma ff_mask: "(0xff :: 'a::len word) = mask 8"
  by (simp add: mask_eq_decr_exp)

lemma ucast_and_ff: "(ucast ((d :: ulong) AND 0xff) :: byte) = ucast d"
  unfolding ff_mask by (rule bit_word_eqI) (auto simp add: bit_simps)

lemma ucast_scast_and_ff: "ucast ((scast (c :: byte) :: uint) AND 0xff) = c"
  unfolding ff_mask by (rule bit_word_eqI) (auto simp add: bit_simps)

lemma ucast_byte_ulong: "(ucast (ucast (x :: ulong) :: byte) :: ulong) = take_bit 8 x"
  by (rule bit_word_eqI) (auto simp add: bit_simps)

lemma top_byte: "take_bit 8 (drop_bit 24 (v :: ulong)) = drop_bit 24 v"
  by (rule bit_word_eqI) (auto simp add: bit_simps dest: bit_imp_le_length)

lemma bytes_ident:
  "push_bit 8 (push_bit 8 (push_bit 8 (ucast (ucast (drop_bit 24 v) :: byte))
       + ucast (ucast (drop_bit 16 v) :: byte)) + ucast (ucast (drop_bit 8 v) :: byte))
     + ucast (ucast v :: byte) = (v :: ulong)"
proof -
  have 3: "push_bit 8 (drop_bit 24 v) + take_bit 8 (drop_bit 16 v) = drop_bit 16 v"
    using bits_ident [of 8 "drop_bit 16 v"] by simp
  have 2: "push_bit 8 (drop_bit 16 v) + take_bit 8 (drop_bit 8 v) = drop_bit 8 v"
    using bits_ident [of 8 "drop_bit 8 v"] by simp
  have 1: "push_bit 8 (drop_bit 8 v) + take_bit 8 v = v"
    by (rule bits_ident)
  show ?thesis
    by (simp only: ucast_byte_ulong top_byte 3 2 1)
qed

lemma writeULong_upd:
  "address \<le> len - 4 \<Longrightarrow>
   eep_writeULong len data address mem =
     mem(address := ucast data, address + 1 := ucast (drop_bit 8 data),
         address + 2 := ucast (drop_bit 16 data), address + 3 := ucast (drop_bit 24 data))"
  by (simp add: eep_writeULong_def upt_0_4 ucast_and_ff)

lemma readULong_cells:
  "address \<le> len - 4 \<Longrightarrow>
   eep_readULong len mem address =
     push_bit 8 (push_bit 8 (push_bit 8 (ucast (mem (address + 3)))
       + ucast (mem (address + 2))) + ucast (mem (address + 1))) + ucast (mem address)"
  by (simp add: eep_readULong_def upt_0_4)

lemma readULong_writeULong:
  "address \<le> len - 4 \<Longrightarrow> eep_readULong len (eep_writeULong len data address mem) address = data"
  by (simp add: writeULong_upd readULong_cells bytes_ident)

lemma writeChar_upd:
  "address \<le> len - 1 \<Longrightarrow> eep_writeChar len c address mem = mem(address := c)"
  by (simp add: eep_writeChar_def ucast_scast_and_ff)

lemma readChar_cell:
  "address \<le> len - 1 \<Longrightarrow> eep_readChar len mem address = mem address"
  apply (simp add: eep_readChar_def)
  by (rule bit_word_eqI) (auto simp add: bit_simps)

text \<open>
  The cells of the ten records are in range on a storage of at least 84 bytes, and
  different records occupy different cells.
\<close>

lemma unat_of_nat_uint: "n < 65536 \<Longrightarrow> unat (of_nat n :: uint) = n"
  by (simp add: unat_of_nat)

lemma cell_of_nat: "(4 + 8 * of_nat i + of_nat k :: uint) = of_nat (4 + 8 * i + k)"
  by simp

lemma index_in_range: "i < 10 \<Longrightarrow> (of_nat i :: uint) < 10"
  by (simp add: word_less_nat_alt unat_of_nat_uint)

lemma unat_cell:
  assumes "i < 10" "k < 8"
  shows "unat (4 + 8 * of_nat i + of_nat k :: uint) = 4 + 8 * i + k"
proof -
  have "4 + 8 * i + k < 65536" using assms by simp
  then have "unat (of_nat (4 + 8 * i + k) :: uint) = 4 + 8 * i + k"
    by (rule unat_of_nat_uint)
  then show ?thesis by (simp only: cell_of_nat)
qed

lemma score_guard:
  assumes "84 \<le> unat len" "i < 10"
  shows "(4 + 8 * of_nat i :: uint) \<le> len - 4"
proof -
  have "unat (4 + 8 * of_nat i :: uint) = 4 + 8 * i"
    using unat_cell [of i 0] assms by simp
  moreover have "unat (len - 4) = unat len - 4"
    using assms by (simp add: unat_sub word_le_nat_alt)
  ultimately show ?thesis using assms by (simp add: word_le_nat_alt)
qed

lemma char_guard:
  assumes "84 \<le> unat len" "i < 10" "k < 8"
  shows "(4 + 8 * of_nat i + of_nat k :: uint) \<le> len - 1"
proof -
  have "unat (len - 1) = unat len - 1"
    using assms by (simp add: unat_sub word_le_nat_alt)
  then show ?thesis using assms unat_cell [of i k] by (simp add: word_le_nat_alt)
qed

lemma cells_disjoint:
  assumes "i < 10" "j < 10" "i \<noteq> j" "k < 8" "k' < 8"
  shows "(4 + 8 * of_nat i + of_nat k :: uint) \<noteq> 4 + 8 * of_nat j + of_nat k'"
proof
  assume "(4 + 8 * of_nat i + of_nat k :: uint) = 4 + 8 * of_nat j + of_nat k'"
  then have "unat (4 + 8 * of_nat i + of_nat k :: uint) = unat (4 + 8 * of_nat j + of_nat k' :: uint)"
    by (rule arg_cong)
  then have "4 + 8 * i + k = 4 + 8 * j + k'"
    using assms by (simp only: unat_cell)
  then show False using assms by arith
qed

lemma cell_inj:
  "i < 10 \<Longrightarrow> j < 10 \<Longrightarrow> k < 8 \<Longrightarrow> k' < 8 \<Longrightarrow> cell i k = cell j k' \<longleftrightarrow> i = j \<and> k = k'"
proof (cases "i = j")
  case False
  assume "i < 10" "j < 10" "k < 8" "k' < 8"
  with False show ?thesis using cells_disjoint [of i j k k'] by (simp add: cell_def)
next
  case True
  assume b: "i < 10" "j < 10" "k < 8" "k' < 8"
  have "unat (cell i k) = 4 + 8 * i + k" "unat (cell i k') = 4 + 8 * i + k'"
    using b unat_cell by (simp_all add: cell_def)
  then have "cell i k = cell i k' \<longleftrightarrow> k = k'" by (metis add_left_cancel)
  with True show ?thesis by simp
qed

text \<open>
  A record written and read in terms of its cells; reading a record after writing one.
\<close>

lemma writeHighScore_cells:
  assumes "84 \<le> unat len" "j < 10"
  shows "eep_writeHighScore len h (of_nat j) mem =
     mem(cell j 0 := ucast (score h), cell j 1 := ucast (drop_bit 8 (score h)),
         cell j 2 := ucast (drop_bit 16 (score h)), cell j 3 := ucast (drop_bit 24 (score h)),
         cell j 4 := aliasOf h ! 0, cell j 5 := aliasOf h ! 1,
         cell j 6 := aliasOf h ! 2, cell j 7 := aliasOf h ! 3)"
proof -
  have g: "(4 + 8 * of_nat j :: uint) \<le> len - 4"
    using assms by (rule score_guard)
  have c: "(4 + 8 * of_nat j + of_nat k :: uint) \<le> len - 1" if "k < 8" for k
    using assms that by (rule char_guard)
  have c4: "(8 + 8 * of_nat j :: uint) \<le> len - 1" "(9 + 8 * of_nat j :: uint) \<le> len - 1"
    "(10 + 8 * of_nat j :: uint) \<le> len - 1" "(11 + 8 * of_nat j :: uint) \<le> len - 1"
    using c [of 4] c [of 5] c [of 6] c [of 7] by (simp_all add: add.commute)
  show ?thesis
    using index_in_range [OF assms(2)] g c4
    by (simp add: eep_writeHighScore_def Let_def upt_0_4 writeULong_upd writeChar_upd cell_def
          mult.commute add.commute)
qed

lemma readHighScore_cells:
  assumes "84 \<le> unat len" "i < 10"
  shows "eep_readHighScore len mem (of_nat i) =
     Some \<lparr>score = assemble (mem (cell i 0)) (mem (cell i 1)) (mem (cell i 2)) (mem (cell i 3)),
           aliasOf = [mem (cell i 4), mem (cell i 5), mem (cell i 6), mem (cell i 7)]\<rparr>"
proof -
  have g: "(4 + 8 * of_nat i :: uint) \<le> len - 4"
    using assms by (rule score_guard)
  have c: "(4 + 8 * of_nat i + of_nat k :: uint) \<le> len - 1" if "k < 8" for k
    using assms that by (rule char_guard)
  have c4: "(8 + 8 * of_nat i :: uint) \<le> len - 1" "(9 + 8 * of_nat i :: uint) \<le> len - 1"
    "(10 + 8 * of_nat i :: uint) \<le> len - 1" "(11 + 8 * of_nat i :: uint) \<le> len - 1"
    using c [of 4] c [of 5] c [of 6] c [of 7] by (simp_all add: add.commute)
  show ?thesis
    using index_in_range [OF assms(2)] g c4
    by (simp add: eep_readHighScore_def Let_def upt_0_4 readULong_cells readChar_cell cell_def
          assemble_def mult.commute add.commute)
qed

lemma assemble_bytes:
  "assemble (ucast v) (ucast (drop_bit 8 v)) (ucast (drop_bit 16 v)) (ucast (drop_bit 24 v)) = v"
  unfolding assemble_def by (rule bytes_ident)

lemma stored_id: "length (aliasOf h) = 4 \<Longrightarrow> stored h = h"
proof -
  assume "length (aliasOf h) = 4"
  then have "map (\<lambda>i. aliasOf h ! i) [0..<4] = aliasOf h"
    by (metis map_nth)
  then show ?thesis by (simp add: stored_def)
qed

lemma read_after_write:
  assumes "84 \<le> unat len" "i < 10" "j < 10"
  shows "eep_readHighScore len (eep_writeHighScore len h (of_nat j) mem) (of_nat i) =
     (if i = j then Some (stored h) else eep_readHighScore len mem (of_nat i))"
proof (cases "i = j")
  case True
  then show ?thesis
    using assms
    by (simp add: readHighScore_cells writeHighScore_cells cell_inj assemble_bytes stored_def
          upt_0_4)
next
  case False
  then show ?thesis
    using assms
    by (simp add: readHighScore_cells writeHighScore_cells cell_inj)
qed

lemma read_after_write_word:
  assumes "84 \<le> unat len" "ti < 10" "tj < 10"
  shows "eep_readHighScore len (eep_writeHighScore len h tj mem) ti =
     (if ti = tj then Some (stored h) else eep_readHighScore len mem ti)"
proof -
  have "unat ti < 10" "unat tj < 10"
    using assms by (simp_all add: word_less_nat_alt)
  then show ?thesis
    using read_after_write [of len "unat ti" "unat tj" h mem] assms(1)
    by (simp add: word_unat_eq_iff [symmetric])
qed

lemma readHighScore_defined: "i < 10 \<Longrightarrow> eep_readHighScore len mem (of_nat i) \<noteq> None"
  using index_in_range [of i] by (simp add: eep_readHighScore_def Let_def)

lemma readHighScoreTable_map:
  "eep_readHighScoreTable len mem =
     map (\<lambda>i. the (eep_readHighScore len mem (of_nat i))) [0..<10]"
proof -
  have "filter (\<lambda>i. eep_readHighScore len mem (of_nat i) \<noteq> None) [0..<10] = [0..<10]"
    by (rule filter_True) (simp add: readHighScore_defined)
  then show ?thesis
    by (simp add: eep_readHighScoreTable_def map_filter_def comp_def)
qed

lemma length_readHighScoreTable: "length (eep_readHighScoreTable len mem) = 10"
  by (simp add: readHighScoreTable_map)

lemma alias_length_readHighScore:
  "eep_readHighScore len mem ti = Some h \<Longrightarrow> length (aliasOf h) = 4"
  by (auto simp add: eep_readHighScore_def Let_def split: if_splits)

lemma alias_length_readHighScoreTable:
  assumes "h \<in> set (eep_readHighScoreTable len mem)"
  shows "length (aliasOf h) = 4"
proof -
  from assms obtain i where "i < 10" "h = the (eep_readHighScore len mem (of_nat i))"
    by (auto simp add: readHighScoreTable_map)
  then show ?thesis
    using readHighScore_defined [of i len mem] alias_length_readHighScore by fastforce
qed

lemma read_after_writes:
  assumes "84 \<le> unat len" "n \<le> 10" "i < 10"
  shows "eep_readHighScore len
           (fold (\<lambda>i mem. eep_writeHighScore len (p ! i) (of_nat i) mem) [0..<n] mem) (of_nat i) =
         (if i < n then Some (stored (p ! i)) else eep_readHighScore len mem (of_nat i))"
  using assms(2)
proof (induction n)
  case 0
  then show ?case by simp
next
  case (Suc n)
  then have "n < 10" "n \<le> 10" by simp_all
  then show ?case
    using Suc.IH assms(1,3) by (simp add: read_after_write less_Suc_eq)
qed

lemma readHighScoreTable_written:
  assumes "84 \<le> unat len" "length p = 10" "\<forall>h \<in> set p. length (aliasOf h) = 4"
  shows "eep_readHighScoreTable len
           (fold (\<lambda>i mem. eep_writeHighScore len (p ! i) (of_nat i) mem) [0..<10] mem) = p"
proof -
  have "stored (p ! i) = p ! i" if "i < 10" for i
    using assms(2,3) that by (simp add: stored_id)
  then have "eep_readHighScoreTable len
           (fold (\<lambda>i mem. eep_writeHighScore len (p ! i) (of_nat i) mem) [0..<10] mem)
        = map (\<lambda>i. p ! i) [0..<10]"
    using assms(1) by (simp add: readHighScoreTable_map read_after_writes)
  also have "\<dots> = p"
    using assms(2) by (metis map_nth)
  finally show ?thesis .
qed

section \<open>The selection sort and the insertion of a score\<close>

text \<open>
  The selection sort: the inner loop finds the position of a maximal score among the
  positions from \<open>i\<close> on, a pass keeps the records and extends the sorted front by
  one, and after nine passes the ten pointers are sorted.
\<close>

lemma maxIndex_fold:
  fixes p :: "HighScore list"
  assumes "i \<le> n"
  defines "m \<equiv> fold (\<lambda>j maxIndex. if score (p ! j) > score (p ! maxIndex) then j else maxIndex)
                      [i..<n] i"
  shows "i \<le> m \<and> (m < n \<or> m = i) \<and> (\<forall>j. i \<le> j \<and> j < n \<longrightarrow> score (p ! j) \<le> score (p ! m))"
  using assms(1) unfolding m_def
proof (induction n)
  case 0
  then show ?case by simp
next
  case (Suc n)
  show ?case
  proof (cases "i = Suc n")
    case True
    then show ?thesis by auto
  next
    case False
    with Suc.prems have le: "i \<le> n" by simp
    note IH = Suc.IH [OF le]
    show ?thesis
      using le IH by (auto simp add: less_Suc_eq)
  qed
qed

lemma maxIndexLoop_bounds:
  assumes "i < 10"
  shows "i \<le> maxIndexLoop p i" "maxIndexLoop p i < 10"
    "i \<le> j \<Longrightarrow> j < 10 \<Longrightarrow> score (p ! j) \<le> score (p ! maxIndexLoop p i)"
  using maxIndex_fold [where i = i and n = 10 and p = p] assms unfolding maxIndexLoop_def by auto

lemma length_sortStep: "length (sortStep i p) = length p"
  by (simp add: sortStep_def Let_def)

lemma mset_sortStep:
  assumes "length p = 10" "i < 10"
  shows "mset (sortStep i p) = mset p"
  using assms maxIndexLoop_bounds(2) [OF assms(2), where p = p]
  by (simp add: sortStep_def Let_def mset_swap)

lemma sortedUpTo_sortStep:
  assumes len: "length p = 10" and k: "k < 10" and inv: "sortedUpTo k p"
  shows "sortedUpTo (Suc k) (sortStep k p)"
proof -
  define m where "m = maxIndexLoop p k"
  have m: "k \<le> m" "m < 10" and mx: "\<And>j. k \<le> j \<Longrightarrow> j < 10 \<Longrightarrow> score (p ! j) \<le> score (p ! m)"
    using maxIndexLoop_bounds [OF k, where p = p] unfolding m_def by auto
  have step: "sortStep k p = (p[k := p ! m])[m := p ! k]"
    by (simp add: sortStep_def Let_def m_def)
  have nth: "sortStep k p ! c = (if c = m then p ! k else if c = k then p ! m else p ! c)"
    if "c < 10" for c
    using that len m k by (simp add: step nth_list_update)
  show ?thesis
    unfolding sortedUpTo_def
  proof (intro allI impI)
    fix a b
    assume ab: "a < Suc k \<and> a \<le> b \<and> b < 10"
    then have a10: "a < 10" and b10: "b < 10" by simp_all
    show "score (sortStep k p ! b) \<le> score (sortStep k p ! a)"
    proof (cases "a = k")
      case True
      have "score (sortStep k p ! b) \<le> score (p ! m)"
        using ab True m k mx by (simp add: nth [OF b10])
      moreover have "sortStep k p ! k = p ! m"
        using nth [OF k] by simp
      then have "sortStep k p ! a = p ! m"
        using True by simp
      ultimately show ?thesis by simp
    next
      case False
      with ab have ak: "a < k" by simp
      then have "sortStep k p ! a = p ! a"
        using m by (simp add: nth [OF a10])
      moreover have "score (sortStep k p ! b) \<le> score (p ! a)"
        using inv ak ab m k unfolding sortedUpTo_def by (simp add: nth [OF b10])
      ultimately show ?thesis by simp
    qed
  qed
qed

lemma sortSteps:
  assumes "length p = 10" "n \<le> 10"
  shows "length (fold sortStep [0..<n] p) = 10 \<and> mset (fold sortStep [0..<n] p) = mset p
         \<and> sortedUpTo n (fold sortStep [0..<n] p)"
  using assms(2)
proof (induction n)
  case 0
  then show ?case using assms(1) by (simp add: sortedUpTo_def)
next
  case (Suc n)
  then have "n < 10" "n \<le> 10" by simp_all
  then show ?case
    using Suc.IH by (simp add: length_sortStep mset_sortStep sortedUpTo_sortStep)
qed

lemma sortPointers_props:
  assumes "length p = 10"
  shows "length (sortPointers p) = 10" "mset (sortPointers p) = mset p"
    "sortedDesc (sortPointers p)"
proof -
  have s: "length (sortPointers p) = 10 \<and> mset (sortPointers p) = mset p
         \<and> sortedUpTo 9 (sortPointers p)"
    using sortSteps [OF assms, of 9] by (simp add: sortPointers_def)
  then show "length (sortPointers p) = 10" "mset (sortPointers p) = mset p" by simp_all
  show "sortedDesc (sortPointers p)"
    unfolding sortedDesc_def sorted_wrt_iff_nth_less
  proof (intro allI impI)
    fix i j
    assume "i < j" "j < length (sortPointers p)"
    then have "i < 9 \<and> i \<le> j \<and> j < 10" using s by simp
    then show "score (sortPointers p ! j) \<le> score (sortPointers p ! i)"
      using s unfolding sortedUpTo_def by blast
  qed
qed

lemma read_sorted_table:
  assumes "84 \<le> unat len"
  shows "eep_readHighScoreTable len (eep_sortHighScoreTable len mem) =
           sortPointers (eep_readHighScoreTable len mem)"
proof -
  let ?t = "eep_readHighScoreTable len mem"
  have l: "length (sortPointers ?t) = 10"
    by (rule sortPointers_props) (rule length_readHighScoreTable)
  have "set (sortPointers ?t) = set ?t"
    using sortPointers_props(2) [OF length_readHighScoreTable, of len mem] by (rule mset_eq_setD)
  then have a: "\<forall>h \<in> set (sortPointers ?t). length (aliasOf h) = 4"
    using alias_length_readHighScoreTable by blast
  show ?thesis
    unfolding eep_sortHighScoreTable_def Let_def
    using assms l a by (rule readHighScoreTable_written)
qed

lemma isHighScoreLoop_iff: "isHighScoreLoop t sc \<longleftrightarrow> (\<exists>h \<in> set t. score h < sc)"
  by (induction t) auto

lemma addHighScore_cases:
  "snd (eep_addHighScore len h mem) = mem
   \<or> (\<exists>mem'. snd (eep_addHighScore len h mem) = eep_sortHighScoreTable len mem')"
  by (auto simp add: eep_addHighScore_def Let_def)

lemma addHighScore_sorted:
  assumes "84 \<le> unat len" "sortedDesc (eep_readHighScoreTable len mem)"
  shows "sortedDesc (eep_readHighScoreTable len (snd (eep_addHighScore len h mem)))"
  using addHighScore_cases [of len h mem] assms
  by (auto simp add: read_sorted_table sortPointers_props(3) length_readHighScoreTable)

lemma addHighScores_sorted:
  assumes "84 \<le> unat len" "sortedDesc (eep_readHighScoreTable len mem)"
  shows "sortedDesc (eep_readHighScoreTable len
           (fold (\<lambda>h mem. snd (eep_addHighScore len h mem)) hs mem))"
  using assms(2)
proof (induction hs arbitrary: mem)
  case Nil
  then show ?case by simp
next
  case (Cons h hs)
  then show ?case using addHighScore_sorted [OF assms(1)] by simp
qed

text \<open>
  The table after one record is written, and the table of the initialised EEPROM.
\<close>

lemma upt_0_10: "[0..<10] = [0, 1, 2, 3, 4, 5, 6, 7, 8, 9]"
  by code_simp

lemma readHighScoreTable_write:
  assumes "84 \<le> unat len" "j < 10" "length (aliasOf h) = 4"
  shows "eep_readHighScoreTable len (eep_writeHighScore len h (of_nat j) mem) =
           (eep_readHighScoreTable len mem)[j := h]"
proof (rule nth_equalityI)
  show "length (eep_readHighScoreTable len (eep_writeHighScore len h (of_nat j) mem)) =
        length ((eep_readHighScoreTable len mem)[j := h])"
    by (simp add: length_readHighScoreTable)
next
  fix i
  assume "i < length (eep_readHighScoreTable len (eep_writeHighScore len h (of_nat j) mem))"
  then have i: "i < 10" by (simp add: length_readHighScoreTable)
  show "eep_readHighScoreTable len (eep_writeHighScore len h (of_nat j) mem) ! i =
        (eep_readHighScoreTable len mem)[j := h] ! i"
    using i assms
    by (simp add: readHighScoreTable_map read_after_write stored_id nth_list_update)
qed

lemma initialEEPROM_table: "eep_readHighScoreTable 1024 initialEEPROM = initialTable"
  unfolding initialEEPROM_def eep_initialiseHighScoreTable_def initialTable_def aliasJMT_def
  by (simp add: upt_0_10 readHighScoreTable_map read_after_write_word stored_def upt_0_4)

section \<open>Properties of the sequence generator\<close>

lemma symbolFound_iff: "symbolFound x ys \<longleftrightarrow> x \<in> set ys"
  by (induction ys) auto

lemma containsAllSymbols_iff: "containsAllSymbols xs ys \<longleftrightarrow> set xs \<subseteq> set ys"
  by (induction xs) (auto simp add: symbolFound_iff)

lemma random_min_max_less: "0 < n \<Longrightarrow> random_min_max 0 n raw < n"
  by (simp add: random_min_max_def)

lemma drawSequence_props:
  "length (drawSequence rnd syms n pos) = n"
  "syms \<noteq> [] \<Longrightarrow> set (drawSequence rnd syms n pos) \<subseteq> set syms"
  by (auto simp add: drawSequence_def random_min_max_less)

lemma generateLoop_props:
  assumes "generateLoop rnd syms n pos = Some sq"
  shows "length sq = n \<and> set syms \<subseteq> set sq \<and> (syms \<noteq> [] \<longrightarrow> set sq \<subseteq> set syms)"
proof (rule generateLoop.raw_induct
    [where P = "\<lambda>(r :: nat \<Rightarrow> nat) s m (p :: nat) q.
                  length q = m \<and> set s \<subseteq> set q \<and> (s \<noteq> [] \<longrightarrow> set q \<subseteq> set s)",
     OF _ assms])
  fix loop :: "(nat \<Rightarrow> nat) \<Rightarrow> 'a list \<Rightarrow> nat \<Rightarrow> nat \<Rightarrow> 'a list option"
  fix r s m p q
  assume IH: "\<And>r s m p q. loop r s m p = Some q \<Longrightarrow>
                length q = m \<and> set s \<subseteq> set q \<and> (s \<noteq> [] \<longrightarrow> set q \<subseteq> set s)"
    and eq: "(let sequence = drawSequence r s m p
              in if containsAllSymbols s sequence then Some sequence
                 else loop r s m (p + m)) = Some q"
  show "length q = m \<and> set s \<subseteq> set q \<and> (s \<noteq> [] \<longrightarrow> set q \<subseteq> set s)"
  proof (cases "containsAllSymbols s (drawSequence r s m p)")
    case True
    with eq have "q = drawSequence r s m p"
      by (simp add: Let_def)
    with True show ?thesis
      using drawSequence_props [where rnd = r and syms = s and n = m and pos = p]
      by (simp add: containsAllSymbols_iff)
  next
    case False
    with eq have "loop r s m (p + m) = Some q"
      by (simp add: Let_def)
    then show ?thesis by (rule IH)
  qed
qed

text \<open>
  The loop returns as soon as a drawn sequence contains every symbol: if pass \<open>t\<close> is
  the first whose sequence does, that sequence is the result.
\<close>

lemma generateLoop_returns:
  assumes "containsAllSymbols syms (drawSequence rnd syms n (pos + t * n))"
    and "\<forall>u<t. \<not> containsAllSymbols syms (drawSequence rnd syms n (pos + u * n))"
  shows "generateLoop rnd syms n pos = Some (drawSequence rnd syms n (pos + t * n))"
  using assms
proof (induction t arbitrary: pos)
  case 0
  then show ?case by (subst generateLoop.simps) (simp add: Let_def)
next
  case (Suc t)
  from Suc.prems(2) have first: "\<not> containsAllSymbols syms (drawSequence rnd syms n pos)"
    by (metis add.right_neutral mult_zero_left zero_less_Suc)
  have "containsAllSymbols syms (drawSequence rnd syms n (pos + n + t * n))"
    using Suc.prems(1) by (simp add: add.assoc)
  moreover have "\<forall>u<t. \<not> containsAllSymbols syms (drawSequence rnd syms n (pos + n + u * n))"
  proof (intro allI impI)
    fix u assume "u < t"
    then have "Suc u < Suc t" by simp
    with Suc.prems(2) have "\<not> containsAllSymbols syms (drawSequence rnd syms n (pos + Suc u * n))"
      by blast
    then show "\<not> containsAllSymbols syms (drawSequence rnd syms n (pos + n + u * n))"
      by (simp add: add.assoc)
  qed
  ultimately have "generateLoop rnd syms n (pos + n) = Some (drawSequence rnd syms n (pos + n + t * n))"
    by (rule Suc.IH)
  then show ?case
    using first by (subst generateLoop.simps) (simp add: Let_def add.assoc)
qed

lemma generateSymbolSequence_props:
  assumes "generateSymbolSequence rnd syms n = Some (Inr sq)"
  shows "length sq = n \<and> set syms \<subseteq> set sq \<and> set sq \<subseteq> set syms"
proof -
  from assms have ne: "syms \<noteq> [] \<or> n = 0" and "generateLoop rnd syms n 0 = Some sq"
    by (auto simp add: generateSymbolSequence_def split: if_splits)
  then have p: "length sq = n \<and> set syms \<subseteq> set sq \<and> (syms \<noteq> [] \<longrightarrow> set sq \<subseteq> set syms)"
    using generateLoop_props by blast
  with ne show ?thesis by auto
qed

lemma length_swapStep: "length (swapStep rnd n i refs) = length refs"
  by (simp add: swapStep_def Let_def)

lemma randomIndex_less: "0 < n \<Longrightarrow> randomIndex rnd n i < n"
  by (simp add: randomIndex_def random_min_max_less)

lemma mset_swapStep:
  assumes "length refs = n" "i < n"
  shows "mset (swapStep rnd n i refs) = mset refs"
proof -
  have "randomIndex rnd n i < n" using assms by (simp add: randomIndex_less)
  then show ?thesis
    using assms by (simp add: swapStep_def Let_def mset_swap)
qed

lemma swapSteps:
  assumes "length refs = n" "k \<le> n"
  shows "length (fold (swapStep rnd n) [0..<k] refs) = n
         \<and> mset (fold (swapStep rnd n) [0..<k] refs) = mset refs"
  using assms(2)
proof (induction k)
  case 0
  then show ?case using assms(1) by simp
next
  case (Suc k)
  then show ?case by (simp add: length_swapStep mset_swapStep)
qed

lemma chooseRandomSymbols_props:
  assumes "k \<le> length syms"
  shows "\<exists>d. chooseRandomSymbols rnd syms k = Inr d \<and> length d = k \<and> distinct d
             \<and> set d \<subseteq> {0..<length syms}"
proof -
  let ?n = "length syms"
  let ?r = "fold (swapStep rnd ?n) [0..<k] [0..<?n]"
  have r: "length ?r = ?n" "mset ?r = mset [0..<?n]"
    using swapSteps [of "[0..<?n]" ?n k rnd] assms by simp_all
  then have "distinct ?r" "set ?r = {0..<?n}"
    by (metis distinct_upt mset_eq_imp_distinct_iff, metis mset_eq_setD set_upt)
  then have "distinct (take k ?r)" "set (take k ?r) \<subseteq> {0..<?n}"
    using set_take_subset [of k ?r] by (simp_all del: set_upt)
  then show ?thesis
    using assms r by (simp add: chooseRandomSymbols_def Let_def)
qed

text \<open>
  C2. Whenever \<open>generateSymbolSequence\<close> returns a sequence, the sequence has the
  requested length, every input symbol pointer occurs in it, and every entry of it is
  one of the input pointers. The statement is about the runs that return: the loop has
  no bound, and for some streams of raw outputs it never accepts a sequence. It holds
  for any list of pointers; that they are distinct and at most as many as the sequence
  is long is not needed.
\<close>

theorem generateSymbolSequence_covers:
  assumes "generateSymbolSequence rnd syms n = Some (Inr sq)"
  shows "length sq = n \<and> set syms \<subseteq> set sq \<and> set sq \<subseteq> set syms"
  using assms by (rule generateSymbolSequence_props)

text \<open>
  A run of C2 that returns: two symbols, a sequence of three; the first sequence drawn
  repeats the first symbol three times and is rejected, the second holds both symbols.
\<close>

theorem generateSymbolSequence_covers_witness:
  "generateSymbolSequence (drawsFrom [0, 0, 0, 1, 0, 1]) ''ul'' 3 = Some (Inr ''lul'')
   \<and> length ''lul'' = 3 \<and> set ''ul'' \<subseteq> set ''lul'' \<and> set ''lul'' \<subseteq> set ''ul''"
proof -
  have run: "generateSymbolSequence (drawsFrom [0, 0, 0, 1, 0, 1]) ''ul'' 3 = Some (Inr ''lul'')"
    by (simp add: generateSymbolSequence_def generateLoop.simps drawSequence_def drawsFrom_def
          random_min_max_def upt_rec)
  show ?thesis
    using run generateSymbolSequence_covers [OF run] by simp
qed

text \<open>
  C7, as the code has it. With \<open>k\<close> at most the length \<open>n\<close> of the catalog, the
  position exchanged with position \<open>i\<close> in pass \<open>i < k\<close> is drawn from the whole range
  of positions below \<open>n\<close>; the function returns \<open>k\<close> references, all different and
  all into the catalog.
\<close>

theorem chooseRandomSymbols_draws:
  assumes "k \<le> length syms"
  shows "(\<forall>i<k. randomIndex rnd (length syms) i < length syms)
         \<and> (\<exists>d. chooseRandomSymbols rnd syms k = Inr d \<and> length d = k \<and> distinct d
                 \<and> set d \<subseteq> {0..<length syms})"
proof -
  have "randomIndex rnd (length syms) i < length syms" if "i < k" for i
  proof -
    from that assms have "0 < length syms" by arith
    then show ?thesis by (rule randomIndex_less)
  qed
  then show ?thesis
    using chooseRandomSymbols_props [OF assms] by simp
qed

text \<open>
  An instance of C7 as the code has it: two of the four arrow symbols.
\<close>

theorem chooseRandomSymbols_draws_witness:
  "2 \<le> length ''uldr''
   \<and> randomIndex (drawsFrom [1, 0]) (length ''uldr'') 0 < length ''uldr''
   \<and> randomIndex (drawsFrom [1, 0]) (length ''uldr'') 1 < length ''uldr''
   \<and> chooseRandomSymbols (drawsFrom [1, 0]) ''uldr'' 2 = Inr [0, 1]"
proof -
  have run: "chooseRandomSymbols (drawsFrom [1, 0]) ''uldr'' 2 = Inr [0, 1]"
    by (simp add: chooseRandomSymbols_def swapStep_def randomIndex_def drawsFrom_def
          random_min_max_def upt_rec)
  show ?thesis
    using run chooseRandomSymbols_draws [of 2 "''uldr''" "drawsFrom [1, 0]"] by simp
qed

text \<open>
  C7, as stated, fails: with the raw outputs 1 and 0 and a catalog of four symbols,
  pass 1 draws position 0, which pass 0 has already shuffled, and exchanges position 1
  with it.
\<close>

theorem chooseRandomSymbols_range_counterexample:
  "randomIndex (drawsFrom [1, 0]) 4 1 = 0
   \<and> \<not> (1 \<le> randomIndex (drawsFrom [1, 0]) 4 1)
   \<and> chooseRandomSymbols (drawsFrom [1, 0]) ''uldr'' 2 = Inr [0, 1]"
  by (simp add: chooseRandomSymbols_def swapStep_def randomIndex_def drawsFrom_def
        random_min_max_def upt_rec)

section \<open>Properties of the address guards\<close>

lemma guard_ULong: "unat a + 4 \<le> unat len \<longleftrightarrow> 4 \<le> unat len \<and> a \<le> len - 4"
  for a len :: uint
proof (cases "4 \<le> unat len")
  case True
  then have "unat (len - 4) = unat len - 4"
    by (simp add: unat_sub word_le_nat_alt)
  with True show ?thesis by (auto simp add: word_le_nat_alt)
next
  case False
  then show ?thesis by simp
qed

lemma guard_Char: "unat a + 1 \<le> unat len \<longleftrightarrow> 1 \<le> unat len \<and> a \<le> len - 1"
  for a len :: uint
proof (cases "1 \<le> unat len")
  case True
  then have "unat (len - 1) = unat len - 1"
    by (simp add: unat_sub word_le_nat_alt)
  with True show ?thesis by (auto simp add: word_le_nat_alt)
next
  case False
  then show ?thesis by simp
qed

text \<open>
  C10. For every 32-bit value \<open>v\<close> and every address \<open>a\<close> with \<open>a + 4\<close> at most the
  length of the storage, reading an unsigned long at \<open>a\<close> after writing \<open>v\<close> there
  returns \<open>v\<close>.
\<close>

theorem readULong_writeULong_roundtrip:
  assumes "unat a + 4 \<le> unat len"
  shows "eep_readULong len (eep_writeULong len v a mem) a = v"
  using assms by (simp add: guard_ULong readULong_writeULong)

text \<open>
  An instance of C10 at the last address of a 1024-byte storage that holds an unsigned
  long.
\<close>

theorem readULong_writeULong_roundtrip_witness:
  "unat (1020 :: uint) + 4 \<le> unat (1024 :: uint)
   \<and> eep_readULong 1024 (eep_writeULong 1024 0xDEADBEEF 1020 blankEEPROM) 1020 = 0xDEADBEEF"
  using readULong_writeULong_roundtrip [of 1020 1024 "0xDEADBEEF" blankEEPROM] by simp

text \<open>
  C8. On a storage of at least four bytes, an address \<open>a\<close> past the last position
  that holds a value of the accessed width (\<open>a > len - 4\<close> for an unsigned long,
  \<open>a > len - 1\<close> for a character) reads as 0, and a write to it leaves every byte of
  the storage as it was. The bound on the length keeps \<open>len - 4\<close>, which the source
  computes in 16-bit unsigned arithmetic, from wrapping around.
\<close>

theorem out_of_range_access:
  assumes "4 \<le> unat len"
  shows "(unat len < unat a + 4 \<longrightarrow>
            eep_readULong len mem a = 0 \<and> eep_writeULong len v a mem = mem)
         \<and> (unat len < unat a + 1 \<longrightarrow>
            eep_readChar len mem a = 0 \<and> eep_writeChar len c a mem = mem)"
proof -
  have "\<not> a \<le> len - 4" if "unat len < unat a + 4"
    using that assms guard_ULong [of a len] by simp
  moreover have "\<not> a \<le> len - 1" if "unat len < unat a + 1"
    using that assms guard_Char [of a len] by simp
  ultimately show ?thesis
    by (simp add: eep_readULong_def eep_writeULong_def eep_readChar_def eep_writeChar_def)
qed

text \<open>
  Instances of C8 on an erased 1024-byte storage, whose cells all hold 255: address
  1021 for an unsigned long, address 1024 for a character.
\<close>

theorem out_of_range_access_witness:
  "4 \<le> unat (1024 :: uint)
   \<and> unat (1024 :: uint) < unat (1021 :: uint) + 4
   \<and> eep_readULong 1024 blankEEPROM 1021 = 0
   \<and> eep_writeULong 1024 0xDEADBEEF 1021 blankEEPROM = blankEEPROM
   \<and> unat (1024 :: uint) < unat (1024 :: uint) + 1
   \<and> eep_readChar 1024 blankEEPROM 1024 = 0
   \<and> eep_writeChar 1024 65 1024 blankEEPROM = blankEEPROM"
  using out_of_range_access [of 1024 1021 blankEEPROM "0xDEADBEEF" 65]
    out_of_range_access [of 1024 1024 blankEEPROM "0xDEADBEEF" 65]
  by simp

text \<open>
  In range, the same storage reads as it is.
\<close>

lemma in_range_reads_blank: "eep_readULong 1024 blankEEPROM 1020 = 0xFFFFFFFF"
  "eep_readChar 1024 blankEEPROM 1023 = 255"
  by (simp_all add: eep_readULong_def eep_readChar_def blankEEPROM_def upt_rec)

section \<open>Properties of the high-score table\<close>

lemma len_1024: "84 \<le> unat (1024 :: uint)"
  by simp

lemma readHighScoreTable_write_word:
  assumes "84 \<le> unat len" "tj < 10" "length (aliasOf h) = 4"
  shows "eep_readHighScoreTable len (eep_writeHighScore len h tj mem) =
           (eep_readHighScoreTable len mem)[unat tj := h]"
proof -
  have "unat tj < 10" using assms(2) by (simp add: word_less_nat_alt)
  then show ?thesis
    using readHighScoreTable_write [OF assms(1) _ assms(3), of "unat tj" mem] by simp
qed

lemma sortPointers_6500:
  "sortPointers (initialTable[9 := \<lparr>score = 6500, aliasOf = aliasAAA\<rparr>]) =
     \<lparr>score = 6500, aliasOf = aliasAAA\<rparr> # butlast initialTable"
  by (simp add: initialTable_def sortPointers_def sortStep_def maxIndexLoop_def upt_rec)

lemma table_after_6500:
  "eep_readHighScoreTable 1024
     (snd (eep_addHighScore 1024 \<lparr>score = 6500, aliasOf = aliasAAA\<rparr> initialEEPROM))
     = \<lparr>score = 6500, aliasOf = aliasAAA\<rparr> # butlast initialTable"
proof -
  have "eep_isHighScore 1024 initialEEPROM 6500"
    by (simp add: eep_isHighScore_def initialEEPROM_table initialTable_def)
  then show ?thesis
    by (simp add: eep_addHighScore_def read_sorted_table [OF len_1024]
          readHighScoreTable_write_word [OF len_1024] initialEEPROM_table aliasAAA_def
          sortPointers_6500 [unfolded aliasAAA_def])
qed

lemma sortPointers_AAA:
  "sortPointers (initialTable[9 := \<lparr>score = 2500, aliasOf = aliasAAA\<rparr>]) = tableAfterAAA"
  by (simp add: tableAfterAAA_def initialTable_def sortPointers_def sortStep_def maxIndexLoop_def
        upt_rec)

lemma table_after_AAA:
  "eep_readHighScoreTable 1024
     (snd (eep_addHighScore 1024 \<lparr>score = 2500, aliasOf = aliasAAA\<rparr> initialEEPROM))
     = tableAfterAAA"
proof -
  have "eep_isHighScore 1024 initialEEPROM 2500"
    by (simp add: eep_isHighScore_def initialEEPROM_table initialTable_def)
  then show ?thesis
    by (simp add: eep_addHighScore_def read_sorted_table [OF len_1024]
          readHighScoreTable_write_word [OF len_1024] initialEEPROM_table aliasAAA_def
          sortPointers_AAA [unfolded aliasAAA_def])
qed

lemma tiedEEPROM_table:
  "eep_readHighScoreTable 1024 tiedEEPROM =
     tableAfterAAA[9 := \<lparr>score = 2700, aliasOf = aliasBBB\<rparr>]"
  by (simp add: tiedEEPROM_def readHighScoreTable_write_word [OF len_1024] table_after_AAA
        aliasBBB_def)

lemma sortPointers_tied:
  "sortPointers (tableAfterAAA[9 := \<lparr>score = 2700, aliasOf = aliasBBB\<rparr>]) =
     map (\<lambda>s. \<lparr>score = s, aliasOf = aliasJMT\<rparr>) [6000, 5500, 5000, 4500, 4000, 3500, 3000]
     @ [\<lparr>score = 2700, aliasOf = aliasBBB\<rparr>, \<lparr>score = 2500, aliasOf = aliasAAA\<rparr>,
        \<lparr>score = 2500, aliasOf = aliasJMT\<rparr>]"
  by (simp add: tableAfterAAA_def sortPointers_def sortStep_def maxIndexLoop_def upt_rec)

text \<open>
  C6, as the code has it. On a storage that holds the whole table,
  \<open>eep_sortHighScoreTable\<close> sorts in descending order: the table read back is
  non-increasing by score and holds the same records as the table before the sort.
\<close>

theorem sortHighScoreTable_sorts:
  assumes "84 \<le> unat len"
  shows "sortedDesc (eep_readHighScoreTable len (eep_sortHighScoreTable len mem))
         \<and> mset (eep_readHighScoreTable len (eep_sortHighScoreTable len mem))
             = mset (eep_readHighScoreTable len mem)"
  using assms
  by (simp add: read_sorted_table sortPointers_props length_readHighScoreTable)

text \<open>
  An instance of C6 as the code has it, on a table with two equal scores.
\<close>

theorem sortHighScoreTable_sorts_witness:
  "84 \<le> unat (1024 :: uint)
   \<and> sortedDesc (eep_readHighScoreTable 1024 (eep_sortHighScoreTable 1024 tiedEEPROM))
   \<and> mset (eep_readHighScoreTable 1024 (eep_sortHighScoreTable 1024 tiedEEPROM))
       = mset (eep_readHighScoreTable 1024 tiedEEPROM)"
  using sortHighScoreTable_sorts [of 1024 tiedEEPROM] by simp

text \<open>
  C6, as stated, fails: the sort is not stable. Before the sort the two records with
  score 2500 are in the order \<open>JMT\<close>, \<open>AAA\<close>; the pass that brings the new score 2700
  forward exchanges it with the \<open>JMT\<close> record, and after the sort the order is
  \<open>AAA\<close>, \<open>JMT\<close>.
\<close>

theorem sortHighScoreTable_stable_counterexample:
  "filter (\<lambda>h. score h = 2500) (eep_readHighScoreTable 1024 tiedEEPROM)
     = [\<lparr>score = 2500, aliasOf = aliasJMT\<rparr>, \<lparr>score = 2500, aliasOf = aliasAAA\<rparr>]
   \<and> filter (\<lambda>h. score h = 2500)
       (eep_readHighScoreTable 1024 (eep_sortHighScoreTable 1024 tiedEEPROM))
     = [\<lparr>score = 2500, aliasOf = aliasAAA\<rparr>, \<lparr>score = 2500, aliasOf = aliasJMT\<rparr>]"
  by (simp add: read_sorted_table [OF len_1024] tiedEEPROM_table sortPointers_tied)
     (simp add: tableAfterAAA_def)

lemma sortedDesc_last:
  assumes "sortedDesc t" "length t = 10" "h \<in> set t"
  shows "score (t ! 9) \<le> score h"
proof -
  from assms(3) obtain i where i: "i < length t" "t ! i = h"
    by (auto simp add: in_set_conv_nth)
  show ?thesis
  proof (cases "i = 9")
    case True
    with i show ?thesis by simp
  next
    case False
    with i assms(2) have "i < 9" by simp
    then have "score (t ! 9) \<le> score (t ! i)"
      using assms(1,2) by (simp add: sortedDesc_def sorted_wrt_iff_nth_less)
    with i show ?thesis by simp
  qed
qed

text \<open>
  C3. When the stored table is sorted non-increasing by score, \<open>eep_isHighScore\<close>
  holds of a score exactly when it is strictly greater than the score of the record at
  index 9; a score equal to that of the record at index 9 is rejected.
\<close>

theorem isHighScore_iff_above_last:
  assumes "sortedDesc (eep_readHighScoreTable len mem)"
  shows "(eep_isHighScore len mem sc \<longleftrightarrow> score (eep_readHighScoreTable len mem ! 9) < sc)
         \<and> \<not> eep_isHighScore len mem (score (eep_readHighScoreTable len mem ! 9))"
proof -
  let ?t = "eep_readHighScoreTable len mem"
  have l: "length ?t = 10" by (rule length_readHighScoreTable)
  have iff: "eep_isHighScore len mem x \<longleftrightarrow> score (?t ! 9) < x" for x
  proof
    assume "eep_isHighScore len mem x"
    then obtain h where "h \<in> set ?t" "score h < x"
      by (auto simp add: eep_isHighScore_def isHighScoreLoop_iff)
    then show "score (?t ! 9) < x"
      using sortedDesc_last [OF assms l] by (meson le_less_trans)
  next
    assume "score (?t ! 9) < x"
    moreover have "?t ! 9 \<in> set ?t" using l by simp
    ultimately show "eep_isHighScore len mem x"
      by (auto simp add: eep_isHighScore_def isHighScoreLoop_iff)
  qed
  then show ?thesis by simp
qed

text \<open>
  An instance of C3 on the initial table, whose last score is 1500.
\<close>

theorem isHighScore_iff_above_last_witness:
  "sortedDesc (eep_readHighScoreTable 1024 initialEEPROM)
   \<and> score (eep_readHighScoreTable 1024 initialEEPROM ! 9) = 1500
   \<and> eep_isHighScore 1024 initialEEPROM 1501
   \<and> \<not> eep_isHighScore 1024 initialEEPROM 1500"
  using isHighScore_iff_above_last [of 1024 initialEEPROM 1501]
  by (simp add: initialEEPROM_table initialTable_def sortedDesc_def)

text \<open>
  C1. On a storage that holds the whole table, starting from a state whose table is
  sorted non-increasing by score, after any finite sequence of \<open>eep_addHighScore\<close>
  calls the table read back has exactly ten records and is sorted non-increasing by
  score. (The table read back has ten records in every state.)
\<close>

theorem highScoreTable_invariant:
  assumes "84 \<le> unat len" and "sortedDesc (eep_readHighScoreTable len mem)"
  shows "length (eep_readHighScoreTable len
                   (fold (\<lambda>hsp mem. snd (eep_addHighScore len hsp mem)) hsps mem)) = 10
         \<and> sortedDesc (eep_readHighScoreTable len
                   (fold (\<lambda>hsp mem. snd (eep_addHighScore len hsp mem)) hsps mem))"
  using assms by (simp add: length_readHighScoreTable addHighScores_sorted)

text \<open>
  An instance of C1: three scores added to the initial table.
\<close>

theorem highScoreTable_invariant_witness:
  "84 \<le> unat (1024 :: uint) \<and> sortedDesc (eep_readHighScoreTable 1024 initialEEPROM)
   \<and> length (eep_readHighScoreTable 1024
                (fold (\<lambda>hsp mem. snd (eep_addHighScore 1024 hsp mem)) newScores initialEEPROM)) = 10
   \<and> sortedDesc (eep_readHighScoreTable 1024
                (fold (\<lambda>hsp mem. snd (eep_addHighScore 1024 hsp mem)) newScores initialEEPROM))"
  using highScoreTable_invariant [of 1024 initialEEPROM newScores]
  by (simp add: initialEEPROM_table initialTable_def sortedDesc_def)

end
